theory Spec2Isabelle
  imports Complex_Main "HOL-Library.Sublist"
begin

section \<open>Text primitives\<close>

text \<open>
  Text is modelled as \<^typ>\<open>string\<close> over character codes below 256, with the ASCII case
  mapping and the ASCII white space of Python's \<^verbatim>\<open>str.strip\<close> (codes 9 to 13, 28 to 31
  and 32). Characters outside ASCII have no case and are never white space in this model.
\<close>

definition char_upper :: "char \<Rightarrow> char" where
  "char_upper c =
     (let n = (of_char c :: nat) in if 97 \<le> n \<and> n \<le> 122 then char_of (n - 32) else c)"

definition char_lower :: "char \<Rightarrow> char" where
  "char_lower c =
     (let n = (of_char c :: nat) in if 65 \<le> n \<and> n \<le> 90 then char_of (n + 32) else c)"

definition is_space :: "char \<Rightarrow> bool" where
  "is_space c =
     (let n = (of_char c :: nat) in n = 32 \<or> (9 \<le> n \<and> n \<le> 13) \<or> (28 \<le> n \<and> n \<le> 31))"

definition upper :: "string \<Rightarrow> string" where
  "upper s = map char_upper s"

definition lower :: "string \<Rightarrow> string" where
  "lower s = map char_lower s"

definition strip :: "string \<Rightarrow> string" where
  "strip s = rev (dropWhile is_space (rev (dropWhile is_space s)))"

text \<open>
  \<^verbatim>\<open>pat in s\<close> on two strings is the test for a contiguous occurrence, \<^const>\<open>sublist\<close>.

  \<^verbatim>\<open>s.split(sep)\<close> scans from the left; at each position where \<open>sep\<close> starts, the text
  collected so far is closed as a segment and the scan continues behind the separator.
  Python raises on an empty separator; the only separator of the program is \<^verbatim>\<open>-US-\<close>.
\<close>

function split_from :: "string \<Rightarrow> string \<Rightarrow> string \<Rightarrow> string list" where
  "split_from sep cur [] = [cur]"
| "split_from sep cur (c # s) =
     (if sep \<noteq> [] \<and> prefix sep (c # s)
      then cur # split_from sep [] (drop (length sep) (c # s))
      else split_from sep (cur @ [c]) s)"
  by pat_completeness auto
termination
  by (relation "measure (\<lambda>(sep, cur, s). length s)") (auto simp: neq_Nil_conv)

definition split :: "string \<Rightarrow> string \<Rightarrow> string list" where
  "split s sep = split_from sep [] s"

section \<open>The base-name normalizer\<close>

text \<open>
  \<^verbatim>\<open>extract_base_name\<close> of \<^verbatim>\<open>app.py\<close> (and, word for word, of \<^verbatim>\<open>app_fixed.py\<close>).
  The argument is a string (every caller passes an element of a string series); a false
  argument is the empty string. The marker comparison comes before trimming and
  upper-casing, as in the source.
\<close>

definition extract_base_name :: "string \<Rightarrow> string option" where
  "extract_base_name base_value =
     (if base_value = [] \<or> base_value = ''NAN'' \<or> base_value = ''NONE'' then None
      else
        let base_str = upper (strip base_value);
            fallthrough = (if base_str \<noteq> [] then Some base_str else None)
        in
          if sublist ''-US-'' base_str then
            (let parts = split base_str ''-US-'' in
               if length parts > 1 then
                 (let base_name = strip (last parts) in
                    if base_name \<noteq> [] then Some base_name else None)
               else fallthrough)
          else fallthrough)"

section \<open>Cells, data frames and errors\<close>

text \<open>
  A cell is a text, a missing number or a missing object; a numeric cell is represented by the
  text that \<^verbatim>\<open>astype(str)\<close> gives it. A data frame has named columns and positional rows;
  a row that is shorter than the header reads as missing there, as the readers pad it.
\<close>

datatype cell = CStr string | CNaN | CNone

fun astype_str :: "cell \<Rightarrow> string" where
  "astype_str (CStr s) = s"
| "astype_str CNaN = ''nan''"
| "astype_str CNone = ''None''"

record dataframe =
  columns :: "string list"
  rows :: "cell list list"

datatype error = KeyError | ZeroDivisionError | ReError

fun cell_at :: "cell list \<Rightarrow> nat \<Rightarrow> cell" where
  "cell_at [] n = CNaN"
| "cell_at (x # xs) 0 = x"
| "cell_at (x # xs) (Suc n) = cell_at xs n"

fun col_index :: "string list \<Rightarrow> string \<Rightarrow> nat option" where
  "col_index [] c = None"
| "col_index (x # xs) c = (if x = c then Some 0 else map_option Suc (col_index xs c))"

text \<open>\<^verbatim>\<open>data[col]\<close>: the column as a series, or \<^verbatim>\<open>KeyError\<close>.\<close>

definition getitem :: "dataframe \<Rightarrow> string \<Rightarrow> error + cell list" where
  "getitem d c =
     (case col_index (columns d) c of
        None \<Rightarrow> Inl KeyError
      | Some i \<Rightarrow> Inr (map (\<lambda>r. cell_at r i) (rows d)))"

text \<open>\<^verbatim>\<open>data[mask]\<close>: the rows at which the boolean series holds, in order.\<close>

definition select_rows :: "dataframe \<Rightarrow> bool list \<Rightarrow> dataframe" where
  "select_rows d row_mask = d\<lparr>rows := map fst (filter snd (zip (rows d) row_mask))\<rparr>"

text \<open>
  \<^verbatim>\<open>series.str.contains(pat, na=False)\<close> compiles \<open>pat\<close> as a regular expression. A pattern
  without metacharacters matches exactly where it occurs, which is all the three constant
  patterns of the status classifier need.
\<close>

definition str_contains :: "string list \<Rightarrow> string \<Rightarrow> bool list" where
  "str_contains series pat = map (sublist pat) series"

section \<open>Statistics\<close>

record stats =
  approved :: nat
  not_approved :: nat
  not_in_time :: nat
  total :: nat

definition zero_stats :: stats where
  "zero_stats = \<lparr>approved = 0, not_approved = 0, not_in_time = 0, total = 0\<rparr>"

text \<open>
  The counting block that \<^verbatim>\<open>calculate_statistics\<close> (lines 114 to 127) and
  \<^verbatim>\<open>calculate_base_statistics\<close> (lines 151 to 164) both contain, on the frame and its
  status column.
\<close>

definition count_statuses :: "dataframe \<Rightarrow> cell list \<Rightarrow> stats" where
  "count_statuses d col =
     (let checker_series = map (\<lambda>c. lower (astype_str c)) col;
          has_approved = str_contains checker_series ''approved'';
          has_not_approved = str_contains checker_series ''not approved'';
          has_not_in_time = str_contains checker_series ''not in time''
      in \<lparr>approved =
            length (rows (select_rows d (map2 (\<lambda>a b. a \<and> \<not> b) has_approved has_not_approved))),
          not_approved = length (rows (select_rows d has_not_approved)),
          not_in_time = length (rows (select_rows d has_not_in_time)),
          total = length (rows d)\<rparr>)"

definition calculate_statistics :: "dataframe option \<Rightarrow> string \<Rightarrow> error + stats" where
  "calculate_statistics data checker_col =
     (case data of
        None \<Rightarrow> Inr zero_stats
      | Some d \<Rightarrow>
          if length (rows d) = 0 then Inr zero_stats
          else if checker_col \<notin> set (columns d) then Inr zero_stats
          else (case getitem d checker_col of
                  Inl e \<Rightarrow> Inl e
                | Inr col \<Rightarrow> Inr (count_statuses d col)))"

section \<open>The base-name mapping\<close>

text \<open>
  The mapping is a Python dictionary from canonical names to lists of raw values; the
  association list keeps its insertion order.
\<close>

type_synonym base_name_mapping = "(string \<times> string list) list"

definition dict_get :: "base_name_mapping \<Rightarrow> string \<Rightarrow> string list \<Rightarrow> string list" where
  "dict_get m k dflt = (case map_of m k of None \<Rightarrow> dflt | Some v \<Rightarrow> v)"




definition normalize_base :: "cell \<Rightarrow> string" where
  "normalize_base c = upper (strip (astype_str c))"




definition base_names :: "string list" where
  "base_names = [''base'', ''bases'', ''base name'', ''basename'']"

definition checker_names :: "string list" where
  "checker_names = [''checker'', ''check'']"

text \<open>Lines 328 to 332, at load time: the loop leaves at the first matching column.\<close>

fun find_base_col_load :: "string list \<Rightarrow> string option" where
  "find_base_col_load [] = None"
| "find_base_col_load (col # cols) =
     (if lower col \<in> set base_names then Some col else find_base_col_load cols)"


text \<open>
  Lines 393 to 403, on every run of the main flow: one loop over the columns assigns both
  variables and runs to the end; then the fallback for the status column.
\<close>

definition find_columns_step :: "string option \<times> string option \<Rightarrow> string \<Rightarrow> string option \<times> string option" where
  "find_columns_step acc col =
     (let base_col = (if lower col \<in> set base_names then Some col else fst acc);
          checker_col = (if lower col \<in> set checker_names then Some col else snd acc)
      in (base_col, checker_col))"

definition find_columns :: "string list \<Rightarrow> string option \<times> string" where
  "find_columns cols =
     (let found = foldl find_columns_step (None, None) cols;
          checker_col = (case snd found of
                           Some c \<Rightarrow> c
                         | None \<Rightarrow> if ''Checker'' \<in> set cols then ''Checker'' else ''checker'')
      in (fst found, checker_col))"

section \<open>Grouped statistics and percentages\<close>


text \<open>
  Python's \<^verbatim>\<open>/\<close> raises on a zero divisor. The quotient is the exact one; rounding of the
  floating-point result is not modelled. \<^verbatim>\<open>percentage\<close> is the expression
  \<^verbatim>\<open>(bucket / total * 100) if total > 0 else 0\<close> of lines 438, 447, 456, 515 to 517 and
  1001 to 1003.
\<close>

definition truediv :: "nat \<Rightarrow> nat \<Rightarrow> error + real" where
  "truediv a b = (if b = 0 then Inl ZeroDivisionError else Inr (real a / real b))"

definition percentage :: "nat \<Rightarrow> nat \<Rightarrow> error + real" where
  "percentage bucket tot =
     (if tot > 0
      then (case truediv bucket tot of Inl e \<Rightarrow> Inl e | Inr q \<Rightarrow> Inr (q * 100))
      else Inr 0)"

section \<open>The filter pipeline\<close>

text \<open>
  \<^verbatim>\<open>series.str.contains(pat, case=False, na=False)\<close> on a pattern typed by the user: the
  pattern is compiled as a regular expression with \<^verbatim>\<open>re.IGNORECASE\<close>. A pattern without
  metacharacters matches where it occurs up to case. For any other pattern the regular
  expression library decides: it is a parameter \<open>re\<close> that either rejects the pattern
  (\<^verbatim>\<open>re.error\<close>) or gives the compiled matcher.
\<close>

type_synonym regex_engine = "string \<Rightarrow> (string \<Rightarrow> bool) option"

definition regex_metachars :: string where
  "regex_metachars = ''.^$*+?{}[]|()'' @ [CHR 0x5C]"

definition is_literal :: "string \<Rightarrow> bool" where
  "is_literal pat = (filter (\<lambda>c. c \<in> set regex_metachars) pat = [])"

definition str_contains_nocase :: "regex_engine \<Rightarrow> string list \<Rightarrow> string \<Rightarrow> error + bool list" where
  "str_contains_nocase re series pat =
     (if is_literal pat then Inr (map (\<lambda>s. sublist (lower pat) (lower s)) series)
      else (case re pat of
              None \<Rightarrow> Inl ReError
            | Some matches \<Rightarrow> Inr (map matches series)))"

datatype status_choice = Show_All | Approved | Not_Approved | Not_in_Time

text \<open>Lines 405 to 415: the mask of the selected status on the lower-cased status series.\<close>

definition status_mask :: "status_choice \<Rightarrow> string list \<Rightarrow> bool list" where
  "status_mask status_filter checker_series =
     (case status_filter of
        Show_All \<Rightarrow> map (\<lambda>s. True) checker_series
      | Approved \<Rightarrow>
          map2 (\<lambda>a b. a \<and> \<not> b) (str_contains checker_series ''approved'')
            (str_contains checker_series ''not approved'')
      | Not_Approved \<Rightarrow> str_contains checker_series ''not approved''
      | Not_in_Time \<Rightarrow> str_contains checker_series ''not in time'')"

text \<open>
  Lines 424 and 474: \<^verbatim>\<open>df.astype(str).apply(lambda x: x.str.contains(term, case=False,
  na=False)).any(axis=1)\<close>, one series per column, then the disjunction along each row.
\<close>

fun any_axis1 :: "bool list list \<Rightarrow> nat \<Rightarrow> bool list" where
  "any_axis1 [] n = replicate n False"
| "any_axis1 (m # ms) n = map2 (\<lambda>a b. a \<or> b) m (any_axis1 ms n)"

fun contains_each :: "regex_engine \<Rightarrow> string list list \<Rightarrow> string \<Rightarrow> error + bool list list" where
  "contains_each re [] pat = Inr []"
| "contains_each re (series # rest) pat =
     (case str_contains_nocase re series pat of
        Inl e \<Rightarrow> Inl e
      | Inr m \<Rightarrow> (case contains_each re rest pat of
                    Inl e \<Rightarrow> Inl e
                  | Inr ms \<Rightarrow> Inr (m # ms)))"

definition search_mask :: "regex_engine \<Rightarrow> dataframe \<Rightarrow> string \<Rightarrow> error + bool list" where
  "search_mask re d search_term =
     (let series_of = (\<lambda>i. map (\<lambda>r. astype_str (cell_at r i)) (rows d)) in
        case contains_each re (map series_of [0..<length (columns d)]) search_term of
          Inl e \<Rightarrow> Inl e
        | Inr ms \<Rightarrow> Inr (any_axis1 ms (length (rows d))))"

text \<open>Lines 966 to 973: the rows whose normalized base value is a member of a selected group.\<close>

definition base_filter_mask ::
  "base_name_mapping \<Rightarrow> string list \<Rightarrow> dataframe \<Rightarrow> string \<Rightarrow> error + bool list" where
  "base_filter_mask mapping selected_bases original_df base_col =
     (let all_original_values = concat (map (\<lambda>base_name. dict_get mapping base_name []) selected_bases) in
        case getitem original_df base_col of
          Inl e \<Rightarrow> Inl e
        | Inr col \<Rightarrow> Inr (map (\<lambda>b. b \<in> set all_original_values) (map normalize_base col)))"

text \<open>
  Lines 497 to 504 of the Combine page. \<open>None\<close> is the warning branch, where nothing is
  computed.
\<close>

definition combine_mask ::
  "regex_engine \<Rightarrow> dataframe \<Rightarrow> string \<Rightarrow> string \<Rightarrow> string \<Rightarrow> error + bool list" where
  "combine_mask re original_df base_col base1 base2 =
     (let base1_upper = strip (upper base1);
          base2_upper = strip (upper base2)
      in case getitem original_df base_col of
           Inl e \<Rightarrow> Inl e
         | Inr col \<Rightarrow>
             (case str_contains_nocase re (map astype_str col) base1_upper of
                Inl e \<Rightarrow> Inl e
              | Inr m1 \<Rightarrow>
                  (case str_contains_nocase re (map astype_str col) base2_upper of
                     Inl e \<Rightarrow> Inl e
                   | Inr m2 \<Rightarrow> Inr (map2 (\<lambda>a b. a \<or> b) m1 m2))))"

definition combine ::
  "regex_engine \<Rightarrow> dataframe \<Rightarrow> string option \<Rightarrow> string \<Rightarrow> string \<Rightarrow> error + dataframe option" where
  "combine re original_df base_col base1 base2 =
     (case base_col of
        None \<Rightarrow> Inr None
      | Some bc \<Rightarrow>
          if base1 \<noteq> [] \<and> base2 \<noteq> [] \<and> bc \<noteq> [] then
            (case combine_mask re original_df bc base1 base2 of
               Inl e \<Rightarrow> Inl e
             | Inr m \<Rightarrow> Inr (Some (select_rows original_df m)))
          else Inr None)"



section \<open>The session and the main flow\<close>

text \<open>
  Data frames are objects: the session state and the local variables of the main flow hold
  references to them. The store maps every reference below \<open>next_ref\<close> to the frame stored
  there. \<^verbatim>\<open>d.copy()\<close> and \<^verbatim>\<open>d[mask]\<close> build a new object and leave \<open>d\<close> as it is; the
  flow calls no method that writes into a frame. The mapping is read with \<^verbatim>\<open>get\<close> and
  \<^verbatim>\<open>keys\<close> only.
\<close>

record world =
  objs :: "nat \<Rightarrow> dataframe"
  next_ref :: nat
  session_df :: "nat option"
  session_original_df :: "nat option"
  session_base_name_mapping :: base_name_mapping

definition new_frame :: "world \<Rightarrow> dataframe \<Rightarrow> world \<times> nat" where
  "new_frame w d = (w\<lparr>objs := (objs w)(next_ref w := d), next_ref := Suc (next_ref w)\<rparr>, next_ref w)"

definition copy_frame :: "world \<Rightarrow> nat \<Rightarrow> world \<times> nat" where
  "copy_frame w r = new_frame w (objs w r)"

definition select_frame :: "world \<Rightarrow> nat \<Rightarrow> bool list \<Rightarrow> world \<times> nat" where
  "select_frame w r row_mask = new_frame w (select_rows (objs w r) row_mask)"

text \<open>
  The widgets of one run: the status radio button and the page with its inputs (a text
  field's content, whether the page's button was pressed, the selected bases).
\<close>

datatype page =
    Data_View string
  | Analytics
  | Search string bool
  | Combine string string bool
  | Bases "string list" bool bool

text \<open>
  What a run shows: a frame (by reference), or nothing but messages and metrics (an empty
  result of the Search and Combine pages is a message). A run that raises shows the
  exception; the session keeps what was assigned before.
\<close>

definition status_stage :: "status_choice \<Rightarrow> string \<Rightarrow> world \<Rightarrow> nat \<Rightarrow> world \<times> (error + nat)" where
  "status_stage status_filter checker_col w df =
     (if status_filter \<noteq> Show_All \<and> checker_col \<in> set (columns (objs w df)) then
        (case getitem (objs w df) checker_col of
           Inl e \<Rightarrow> (w, Inl e)
         | Inr col \<Rightarrow>
             (let checker_series = map (\<lambda>c. lower (astype_str c)) col;
                  res = select_frame w df (status_mask status_filter checker_series)
              in (fst res, Inr (snd res))))
      else (w, Inr df))"

definition search_stage :: "regex_engine \<Rightarrow> string \<Rightarrow> world \<Rightarrow> nat \<Rightarrow> world \<times> (error + nat)" where
  "search_stage re search_term w r =
     (case search_mask re (objs w r) search_term of
        Inl e \<Rightarrow> (w, Inl e)
      | Inr m \<Rightarrow> (let res = select_frame w r m in (fst res, Inr (snd res))))"

definition page_stage ::
  "regex_engine \<Rightarrow> page \<Rightarrow> string option \<Rightarrow> string \<Rightarrow> world \<Rightarrow> nat \<Rightarrow> nat \<Rightarrow> world \<times> (error + nat option)" where
  "page_stage re pg base_col checker_col w df original_df =
     (case pg of
        Data_View search_term \<Rightarrow>
          (if search_term \<noteq> [] then
             (let found = search_stage re search_term w df in
                case snd found of
                  Inl e \<Rightarrow> (fst found, Inl e)
                | Inr r \<Rightarrow> (fst found, Inr (Some r)))
           else (w, Inr (Some df)))
      | Analytics \<Rightarrow> (w, Inr None)
      | Search search_term pressed \<Rightarrow>
          (if pressed \<and> search_term \<noteq> [] then
             (let found = search_stage re search_term w original_df in
                case snd found of
                  Inl e \<Rightarrow> (fst found, Inl e)
                | Inr results \<Rightarrow>
                    if length (rows (objs (fst found) results)) = 0 then (fst found, Inr None)
                    else (fst found, Inr (Some results)))
           else (w, Inr None))
      | Combine base1 base2 pressed \<Rightarrow>
          (if pressed then
             (case combine re (objs w original_df) base_col base1 base2 of
                Inl e \<Rightarrow> (w, Inl e)
              | Inr None \<Rightarrow> (w, Inr None)
              | Inr (Some combined) \<Rightarrow>
                  (let res = new_frame w combined in
                     if length (rows combined) = 0 then (fst res, Inr None)
                     else (fst res, Inr (Some (snd res)))))
           else (w, Inr None))
      | Bases selected_bases apply_pressed reset_pressed \<Rightarrow>
          (case base_col of
             None \<Rightarrow> (w, Inr None)
           | Some bc \<Rightarrow>
               if bc \<noteq> [] \<and> session_base_name_mapping w \<noteq> [] then
                 (if apply_pressed \<and> selected_bases \<noteq> [] then
                    (case base_filter_mask (session_base_name_mapping w) selected_bases
                            (objs w original_df) bc of
                       Inl e \<Rightarrow> (w, Inl e)
                     | Inr m \<Rightarrow>
                         (let sel = select_frame w original_df m;
                              cp = copy_frame (fst sel) (snd sel)
                          in ((fst cp)\<lparr>session_df := Some (snd cp)\<rparr>, Inr None)))
                  else if reset_pressed then
                    (case session_original_df w of
                       None \<Rightarrow> (w, Inr None)
                     | Some orig \<Rightarrow>
                         (let cp = copy_frame w orig
                          in ((fst cp)\<lparr>session_df := Some (snd cp)\<rparr>, Inr None)))
                  else (w, Inr None))
               else (w, Inr None)))"

text \<open>Lines 384 to 416 and the page routing: one run of the main flow.\<close>

definition main_flow :: "regex_engine \<Rightarrow> status_choice \<Rightarrow> page \<Rightarrow> world \<Rightarrow> world \<times> (error + nat option)" where
  "main_flow re status_filter pg w =
     (case session_df w of
        None \<Rightarrow> (w, Inr None)
      | Some sdf \<Rightarrow>
          (case session_original_df w of
             None \<Rightarrow> (w, Inr None)
           | Some sorig \<Rightarrow>
               (let c1 = copy_frame w sdf;
                    c2 = copy_frame (fst c1) sorig;
                    found = find_columns (columns (objs (fst c2) (snd c1)));
                    st = status_stage status_filter (snd found) (fst c2) (snd c1)
                in case snd st of
                     Inl e \<Rightarrow> (fst st, Inl e)
                   | Inr df \<Rightarrow> page_stage re pg (fst found) (snd found) (fst st) df (snd c2))))"

text \<open>A sequence of runs, each with its own widget state.\<close>

fun run_flows :: "regex_engine \<Rightarrow> (status_choice \<times> page) list \<Rightarrow> world \<Rightarrow> world" where
  "run_flows re [] w = w"
| "run_flows re (a # as) w = run_flows re as (fst (main_flow re (fst a) (snd a) w))"

section \<open>The specification's wording and auxiliary notions\<close>

text \<open>
  The three predicates of the status classifier as the specification words them, on the
  lower-cased text of a status cell.
\<close>

definition spec_approved :: "string \<Rightarrow> bool" where
  "spec_approved t = (sublist ''approved'' t \<and> \<not> sublist ''not approved'' t)"

definition spec_not_approved :: "string \<Rightarrow> bool" where
  "spec_not_approved t = sublist ''not approved'' t"

definition spec_not_in_time :: "string \<Rightarrow> bool" where
  "spec_not_in_time t = sublist ''not in time'' t"



text \<open>
  One world is related to a later one when every object that existed is still what it was
  and the session still refers to the same canonical frame and holds the same mapping.
\<close>

definition frame_preserved :: "world \<Rightarrow> world \<Rightarrow> bool" where
  "frame_preserved w w' \<longleftrightarrow>
     next_ref w \<le> next_ref w' \<and>
     (\<forall>r. r < next_ref w \<longrightarrow> objs w' r = objs w r) \<and>
     session_original_df w' = session_original_df w \<and>
     session_base_name_mapping w' = session_base_name_mapping w"

text \<open>A frame with the columns of another and a subsequence of its rows.\<close>

definition row_subset :: "dataframe \<Rightarrow> dataframe \<Rightarrow> bool" where
  "row_subset d' d \<longleftrightarrow> columns d' = columns d \<and> subseq (rows d') (rows d)"

text \<open>A session after loading a small file: the working frame, its copy, the mapping.\<close>

definition example_frame :: dataframe where
  "example_frame = \<lparr>columns = [''Base'', ''Checker''],
     rows = [[CStr ''123-US-LY'', CStr ''Approved''], [CStr ''456-US-LY'', CStr ''Not Approved''],
             [CStr ''OTHER'', CStr ''Approved'']]\<rparr>"

definition example_world :: world where
  "example_world = \<lparr>objs = (\<lambda>r. example_frame), next_ref = 2, session_df = Some 0,
     session_original_df = Some 1,
     session_base_name_mapping = [(''LY'', [''123-US-LY'', ''456-US-LY'']), (''OTHER'', [''OTHER''])]\<rparr>"

section \<open>Properties of the text primitives\<close>






lemma strip_Nil: "strip [] = []" by (simp add: strip_def)








section \<open>Properties of splitting\<close>





lemma split_from_not_found:
  assumes "\<not> sublist sep (cur @ s)"
  shows "split_from sep cur s = [cur @ s]"
  using assms
proof (induction sep cur s rule: split_from.induct)
  case (1 sep cur)
  then show ?case by simp
next
  case (2 sep cur c s)
  have "\<not> prefix sep (c # s)"
    using 2(3) by (metis prefix_imp_sublist sublist_append_leftI sublist_order.order_trans)
  then show ?case using 2 by simp
qed



section \<open>The normalizer\<close>










text \<open>
  Claim C6, as the code has it. The normalizer returns an absent result for the empty input
  and for an input that is exactly \<^verbatim>\<open>NAN\<close> or \<^verbatim>\<open>NONE\<close>; the comparison is made on the argument
  as it comes. So whenever a text, trimmed and upper-cased as the callers do it, is empty or one of
  the two markers, the normalizer applied to that normalized text is absent.
\<close>

theorem extract_base_name_markers:
  "(raw = [] \<or> raw = ''NAN'' \<or> raw = ''NONE'' \<longrightarrow> extract_base_name raw = None)
   \<and> (upper (strip t) = [] \<or> upper (strip t) = ''NAN'' \<or> upper (strip t) = ''NONE''
        \<longrightarrow> extract_base_name (upper (strip t)) = None)"
  by (simp add: extract_base_name_def)

theorem extract_base_name_markers_witness:
  "extract_base_name ''NAN'' = None \<and> upper (strip '' none '') = ''NONE''
   \<and> extract_base_name (upper (strip '' none '')) = None"
proof -
  have u: "upper (strip '' none '') = ''NONE''" by code_simp
  from extract_base_name_markers[of "''NAN''" "'' none ''"] u show ?thesis by simp
qed

text \<open>
  Claim C6 as it is written fails: the lower-case text \<^verbatim>\<open>nan\<close> is not one of the compared
  literals, and the normalizer returns the name \<^verbatim>\<open>NAN\<close> for it.
\<close>

theorem extract_base_name_lowercase_nan: "extract_base_name ''nan'' = Some ''NAN''"
  by code_simp

section \<open>Frames and the status classifier\<close>

lemma col_index_None: "col_index cols c = None \<longleftrightarrow> c \<notin> set cols"
  by (induction cols) auto


lemma getitem_Inr_iff: "(\<exists>col. getitem d c = Inr col) \<longleftrightarrow> c \<in> set (columns d)"
  using col_index_None[of "columns d" c] by (auto simp: getitem_def split: option.splits)

lemma getitem_length: "getitem d c = Inr col \<Longrightarrow> length col = length (rows d)"
  by (auto simp: getitem_def split: option.splits)


lemma select_len: "length bs = length xs \<Longrightarrow> length (filter snd (zip xs bs)) = length (filter (\<lambda>b. b) bs)"
proof (induction xs arbitrary: bs)
  case Nil then show ?case by simp
next
  case (Cons x xs)
  then obtain b bs' where "bs = b # bs'" by (cases bs) auto
  with Cons show ?case by auto
qed

lemma map2_same: "map2 f (map g xs) (map h xs) = map (\<lambda>x. f (g x) (h x)) xs"
  by (induction xs) auto

lemma count_statuses_eq:
  assumes "length col = length (rows d)"
  shows "count_statuses d col =
    \<lparr>approved = length (filter (\<lambda>c. spec_approved (lower (astype_str c))) col),
     not_approved = length (filter (\<lambda>c. spec_not_approved (lower (astype_str c))) col),
     not_in_time = length (filter (\<lambda>c. spec_not_in_time (lower (astype_str c))) col),
     total = length col\<rparr>"
proof -
  have sel: "length (rows (select_rows d (map P col))) = length (filter P col)" for P
  proof -
    have "length (rows (select_rows d (map P col))) = length (filter (\<lambda>b. b) (map P col))"
      using assms by (simp add: select_rows_def select_len)
    also have "\<dots> = length (filter P col)" by (simp add: filter_map o_def)
    finally show ?thesis .
  qed
  show ?thesis
    unfolding count_statuses_def Let_def str_contains_def map_map map2_same o_def
      spec_approved_def spec_not_approved_def spec_not_in_time_def
    by (simp add: sel assms)
qed

lemma classifier_counts:
  assumes "getitem d checker_col = Inr col"
  shows "calculate_statistics (Some d) checker_col =
     Inr \<lparr>approved = length (filter (\<lambda>c. spec_approved (lower (astype_str c))) col),
          not_approved = length (filter (\<lambda>c. spec_not_approved (lower (astype_str c))) col),
          not_in_time = length (filter (\<lambda>c. spec_not_in_time (lower (astype_str c))) col),
          total = length (rows d)\<rparr>"
proof -
  have len: "length col = length (rows d)" using assms by (rule getitem_length)
  have mem: "checker_col \<in> set (columns d)" using assms getitem_Inr_iff by blast
  show ?thesis
  proof (cases "rows d = []")
    case True
    with len have "col = []" by simp
    with True show ?thesis by (simp add: calculate_statistics_def zero_stats_def)
  next
    case False
    with mem assms show ?thesis
      by (simp add: calculate_statistics_def count_statuses_eq[OF len] len)
  qed
qed

text \<open>
  Claim C1. The counts of \<^const>\<open>calculate_statistics\<close> are the numbers of status cells whose
  lower-cased text satisfies the three predicates, each counted on its own: a text that
  contains \<^verbatim>\<open>not approved\<close>; a text that contains \<^verbatim>\<open>approved\<close> and not \<^verbatim>\<open>not approved\<close>; a
  text that contains \<^verbatim>\<open>not in time\<close>. On a single cell each count is 1 or 0 as its
  predicate holds or not, and the total is 1 whatever the cell is. The cell
  \<^verbatim>\<open>Approved but not in time\<close> counts as approved and as not in time; the cell
  \<^verbatim>\<open>Not Approved\<close> counts as not approved only.
\<close>

theorem status_classifier:
  assumes "getitem d checker_col = Inr col"
  shows "calculate_statistics (Some d) checker_col =
     Inr \<lparr>approved = length (filter (\<lambda>c. spec_approved (lower (astype_str c))) col),
          not_approved = length (filter (\<lambda>c. spec_not_approved (lower (astype_str c))) col),
          not_in_time = length (filter (\<lambda>c. spec_not_in_time (lower (astype_str c))) col),
          total = length (rows d)\<rparr>
   \<and> calculate_statistics (Some \<lparr>columns = [cc], rows = [[c]]\<rparr>) cc =
     Inr \<lparr>approved = (if spec_approved (lower (astype_str c)) then 1 else 0),
          not_approved = (if spec_not_approved (lower (astype_str c)) then 1 else 0),
          not_in_time = (if spec_not_in_time (lower (astype_str c)) then 1 else 0),
          total = 1\<rparr>
   \<and> calculate_statistics (Some \<lparr>columns = [''Checker''], rows = [[CStr ''Approved but not in time'']]\<rparr>) ''Checker''
       = Inr \<lparr>approved = 1, not_approved = 0, not_in_time = 1, total = 1\<rparr>
   \<and> calculate_statistics (Some \<lparr>columns = [''Checker''], rows = [[CStr ''Not Approved'']]\<rparr>) ''Checker''
       = Inr \<lparr>approved = 0, not_approved = 1, not_in_time = 0, total = 1\<rparr>"
proof -
  have g: "getitem \<lparr>columns = [cc], rows = [[c]]\<rparr> cc = Inr [c]"
    by (simp add: getitem_def)
  have 1: "calculate_statistics (Some \<lparr>columns = [cc], rows = [[c]]\<rparr>) cc =
     Inr \<lparr>approved = (if spec_approved (lower (astype_str c)) then 1 else 0),
          not_approved = (if spec_not_approved (lower (astype_str c)) then 1 else 0),
          not_in_time = (if spec_not_in_time (lower (astype_str c)) then 1 else 0),
          total = 1\<rparr>"
    unfolding classifier_counts[OF g] by simp
  have 2: "calculate_statistics (Some \<lparr>columns = [''Checker''], rows = [[CStr ''Approved but not in time'']]\<rparr>) ''Checker''
       = Inr \<lparr>approved = 1, not_approved = 0, not_in_time = 1, total = 1\<rparr>"
    by code_simp
  have 3: "calculate_statistics (Some \<lparr>columns = [''Checker''], rows = [[CStr ''Not Approved'']]\<rparr>) ''Checker''
       = Inr \<lparr>approved = 0, not_approved = 1, not_in_time = 0, total = 1\<rparr>"
    by code_simp
  from classifier_counts[OF assms] 1 2 3 show ?thesis by blast
qed

theorem status_classifier_witness:
  "getitem \<lparr>columns = [''Checker''], rows = [[CStr ''Approved but not in time''], [CStr ''Not Approved''], [CStr ''Pending'']]\<rparr> ''Checker''
      = Inr [CStr ''Approved but not in time'', CStr ''Not Approved'', CStr ''Pending'']
   \<and> calculate_statistics (Some \<lparr>columns = [''Checker''], rows = [[CStr ''Approved but not in time''], [CStr ''Not Approved''], [CStr ''Pending'']]\<rparr>) ''Checker''
      = Inr \<lparr>approved = 1, not_approved = 1, not_in_time = 1, total = 3\<rparr>"
proof -
  let ?d = "\<lparr>columns = [''Checker''], rows = [[CStr ''Approved but not in time''], [CStr ''Not Approved''], [CStr ''Pending'']]\<rparr>"
  let ?col = "[CStr ''Approved but not in time'', CStr ''Not Approved'', CStr ''Pending'']"
  have g: "getitem ?d ''Checker'' = Inr ?col" by code_simp
  have a: "length (filter (\<lambda>c. spec_approved (lower (astype_str c))) ?col) = 1" by code_simp
  have b: "length (filter (\<lambda>c. spec_not_approved (lower (astype_str c))) ?col) = 1" by code_simp
  have c: "length (filter (\<lambda>c. spec_not_in_time (lower (astype_str c))) ?col) = 1" by code_simp
  from status_classifier[OF g] a b c g show ?thesis by simp
qed

section \<open>Zero snapshots and percentages\<close>

lemma calculate_statistics_total: "\<exists>s. calculate_statistics data cc = Inr s"
proof (cases data)
  case None then show ?thesis by (simp add: calculate_statistics_def)
next
  case (Some d)
  show ?thesis
  proof (cases "cc \<in> set (columns d)")
    case True
    then obtain col where "getitem d cc = Inr col" using getitem_Inr_iff by blast
    with Some show ?thesis by (simp add: calculate_statistics_def)
  next
    case False
    with Some show ?thesis by (simp add: calculate_statistics_def)
  qed
qed

text \<open>
  Claim C7. \<^const>\<open>calculate_statistics\<close> returns the all-zero snapshot when there is no data,
  when there are no rows and when the status column is not a column of the data. It returns a
  snapshot on every input, never an error. A percentage is 0 when the total is 0, the
  quotient times 100 otherwise, and never the division error.
\<close>

theorem aggregate_zero_and_percentages:
  "calculate_statistics None cc = Inr zero_stats
   \<and> (rows d = [] \<longrightarrow> calculate_statistics (Some d) cc = Inr zero_stats)
   \<and> (cc \<notin> set (columns d) \<longrightarrow> calculate_statistics (Some d) cc = Inr zero_stats)
   \<and> zero_stats = \<lparr>approved = 0, not_approved = 0, not_in_time = 0, total = 0\<rparr>
   \<and> (\<exists>s. calculate_statistics data cc = Inr s)
   \<and> percentage bucket 0 = Inr 0
   \<and> (0 < tot \<longrightarrow> percentage bucket tot = Inr (real bucket / real tot * 100))
   \<and> (\<exists>p. percentage bucket tot = Inr p)"
proof -
  have 1: "calculate_statistics None cc = Inr zero_stats"
    by (simp add: calculate_statistics_def)
  have 2: "rows d = [] \<longrightarrow> calculate_statistics (Some d) cc = Inr zero_stats"
    by (simp add: calculate_statistics_def)
  have 3: "cc \<notin> set (columns d) \<longrightarrow> calculate_statistics (Some d) cc = Inr zero_stats"
    by (simp add: calculate_statistics_def)
  have 4: "percentage bucket 0 = Inr 0" by (simp add: percentage_def)
  have 5: "0 < tot \<longrightarrow> percentage bucket tot = Inr (real bucket / real tot * 100)"
    by (simp add: percentage_def truediv_def)
  have 6: "\<exists>p. percentage bucket tot = Inr p"
    by (simp add: percentage_def truediv_def)
  from 1 2 3 4 5 6 calculate_statistics_total[of data cc] show ?thesis
    by (simp add: zero_stats_def)
qed

theorem aggregate_zero_and_percentages_witness:
  "rows \<lparr>columns = [''Checker''], rows = []\<rparr> = []
   \<and> calculate_statistics (Some \<lparr>columns = [''Checker''], rows = []\<rparr>) ''Checker'' = Inr zero_stats
   \<and> ''Checker'' \<notin> set (columns \<lparr>columns = [''Base''], rows = [[CStr ''X'']]\<rparr>)
   \<and> calculate_statistics (Some \<lparr>columns = [''Base''], rows = [[CStr ''X'']]\<rparr>) ''Checker'' = Inr zero_stats
   \<and> (0::nat) < 4 \<and> percentage 1 4 = Inr 25"
proof -
  note a = aggregate_zero_and_percentages[of "''Checker''" "\<lparr>columns = [''Checker''], rows = []\<rparr>" None 1 4]
  note b = aggregate_zero_and_percentages[of "''Checker''" "\<lparr>columns = [''Base''], rows = [[CStr ''X'']]\<rparr>" None 1 4]
  from a have 1: "calculate_statistics (Some \<lparr>columns = [''Checker''], rows = []\<rparr>) ''Checker'' = Inr zero_stats"
    by simp
  from b have 2: "calculate_statistics (Some \<lparr>columns = [''Base''], rows = [[CStr ''X'']]\<rparr>) ''Checker'' = Inr zero_stats"
    by simp
  from a have 3: "percentage 1 4 = Inr 25" by simp
  from 1 2 3 show ?thesis by simp
qed

section \<open>Grouped statistics\<close>

lemma columns_select_rows: "columns (select_rows d m) = columns d"
  by (simp add: select_rows_def)

lemma getitem_select_rows_iff:
  "(\<exists>col. getitem (select_rows d m) c = Inr col) \<longleftrightarrow> (\<exists>col. getitem d c = Inr col)"
  by (simp add: getitem_Inr_iff columns_select_rows)



section \<open>The mapping built at load time\<close>
























section \<open>Resolving the base column\<close>

lemma find_base_col_load_first:
  "find_base_col_load cols = List.find (\<lambda>col. lower col \<in> set base_names) cols"
  by (induction cols) auto

lemma find_snoc:
  "List.find P (xs @ [x]) = (case List.find P xs of None \<Rightarrow> (if P x then Some x else None) | Some y \<Rightarrow> Some y)"
  by (induction xs) auto

lemma fst_find_columns_step:
  "fst (find_columns_step acc col) = (if lower col \<in> set base_names then Some col else fst acc)"
  by (simp add: find_columns_step_def Let_def)

lemma find_columns_foldl:
  "fst (foldl find_columns_step acc cols) =
     (case List.find (\<lambda>col. lower col \<in> set base_names) (rev cols) of
        None \<Rightarrow> fst acc | Some col \<Rightarrow> Some col)"
proof (induction cols arbitrary: acc)
  case Nil then show ?case by simp
next
  case (Cons c cols)
  show ?case
    by (simp add: Cons.IH find_snoc fst_find_columns_step split: option.splits)
qed

lemma find_columns_last:
  "fst (find_columns cols) = List.find (\<lambda>col. lower col \<in> set base_names) (rev cols)"
  by (simp add: find_columns_def Let_def find_columns_foldl split: option.splits)

text \<open>
  Claim C5. With the columns \<^verbatim>\<open>Base\<close> and \<^verbatim>\<open>Bases\<close> the loop of the load step resolves the
  first of them and the loop of the main flow the last: the two disagree, and the main flow
  does not resolve the earliest matching column.
\<close>

theorem base_column_resolution_diverges:
  "find_base_col_load [''Base'', ''Bases''] = Some ''Base''
   \<and> fst (find_columns [''Base'', ''Bases'']) = Some ''Bases''"
  by code_simp

section \<open>The combine filter\<close>








section \<open>Filters and the canonical data\<close>

lemma frame_preserved_refl: "frame_preserved w w"
  by (simp add: frame_preserved_def)

lemma frame_preserved_trans:
  "frame_preserved w w' \<Longrightarrow> frame_preserved w' w'' \<Longrightarrow> frame_preserved w w''"
  by (auto simp: frame_preserved_def)

lemma frame_preserved_new_frame: "frame_preserved w (fst (new_frame w d))"
  by (simp add: frame_preserved_def new_frame_def)

lemma new_frame_fresh:
  "snd (new_frame w d) = next_ref w"
  "next_ref (fst (new_frame w d)) = Suc (next_ref w)"
  "objs (fst (new_frame w d)) (next_ref w) = d"
  by (simp_all add: new_frame_def)

lemma frame_preserved_copy_frame: "frame_preserved w (fst (copy_frame w r))"
  by (simp add: copy_frame_def frame_preserved_new_frame)

lemma frame_preserved_select_frame: "frame_preserved w (fst (select_frame w r m))"
  by (simp add: select_frame_def frame_preserved_new_frame)

lemma frame_preserved_session_df:
  "frame_preserved w w' \<Longrightarrow> frame_preserved w (w'\<lparr>session_df := x\<rparr>)"
  by (simp add: frame_preserved_def)

lemma frame_preserved_status_stage:
  "frame_preserved w (fst (status_stage status_filter checker_col w df))"
  by (auto simp: status_stage_def Let_def frame_preserved_refl frame_preserved_select_frame
      split: sum.splits)

lemma frame_preserved_search_stage:
  "frame_preserved w (fst (search_stage re search_term w r))"
  by (auto simp: search_stage_def Let_def frame_preserved_refl frame_preserved_select_frame
      split: sum.splits)

lemma frame_preserved_page_stage:
  "frame_preserved w (fst (page_stage re pg base_col checker_col w df original_df))"
proof (cases pg)
  case (Data_View search_term)
  then show ?thesis
    by (simp add: page_stage_def Let_def frame_preserved_refl frame_preserved_search_stage
        split: sum.splits)
next
  case Analytics
  then show ?thesis by (simp add: page_stage_def frame_preserved_refl)
next
  case (Search search_term pressed)
  then show ?thesis
    by (simp add: page_stage_def Let_def frame_preserved_refl frame_preserved_search_stage
        split: sum.splits)
next
  case (Combine base1 base2 pressed)
  then show ?thesis
    by (auto simp: page_stage_def Let_def frame_preserved_refl frame_preserved_new_frame
        split: sum.splits option.splits)
next
  case (Bases selected_bases apply_pressed reset_pressed)
  have a: "frame_preserved w ((fst (copy_frame (fst (select_frame w original_df m)) r))\<lparr>session_df := x\<rparr>)"
    for m r x
    by (intro frame_preserved_session_df
        frame_preserved_trans[OF frame_preserved_select_frame frame_preserved_copy_frame])
  have b: "frame_preserved w ((fst (copy_frame w r))\<lparr>session_df := x\<rparr>)" for r x
    by (intro frame_preserved_session_df frame_preserved_copy_frame)
  from Bases show ?thesis
    by (auto simp: page_stage_def Let_def frame_preserved_refl a b
        split: sum.splits option.splits)
qed

lemma frame_preserved_main_flow: "frame_preserved w (fst (main_flow re status_filter pg w))"
proof (cases "session_df w")
  case None
  then show ?thesis by (simp add: main_flow_def frame_preserved_refl)
next
  case (Some sdf)
  show ?thesis
  proof (cases "session_original_df w")
    case None
    with Some show ?thesis by (simp add: main_flow_def frame_preserved_refl)
  next
    case (Some sorig)
    let ?c1 = "copy_frame w sdf"
    let ?c2 = "copy_frame (fst ?c1) sorig"
    let ?found = "find_columns (columns (objs (fst ?c2) (snd ?c1)))"
    let ?st = "status_stage status_filter (snd ?found) (fst ?c2) (snd ?c1)"
    have 1: "frame_preserved w (fst ?c2)"
      by (rule frame_preserved_trans[OF frame_preserved_copy_frame frame_preserved_copy_frame])
    have 2: "frame_preserved w (fst ?st)"
      by (rule frame_preserved_trans[OF 1 frame_preserved_status_stage])
    have 3: "frame_preserved w (fst (page_stage re pg (fst ?found) (snd ?found) (fst ?st) df (snd ?c2)))" for df
      by (rule frame_preserved_trans[OF 2 frame_preserved_page_stage])
    from \<open>session_df w = Some sdf\<close> Some 2 3 show ?thesis
      by (simp add: main_flow_def Let_def split: sum.splits)
  qed
qed

lemma frame_preserved_run_flows: "frame_preserved w (run_flows re acts w)"
proof (induction acts arbitrary: w)
  case Nil
  then show ?case by (simp add: frame_preserved_refl)
next
  case (Cons a acts)
  show ?case
    using frame_preserved_trans[OF frame_preserved_main_flow Cons.IH] by simp
qed

lemma select_rows_subseq: "subseq (rows (select_rows d m)) (rows d)"
proof -
  have "subseq (map fst (filter snd (zip xs bs))) xs" for xs :: "cell list list" and bs
  proof (induction xs arbitrary: bs)
    case Nil then show ?case by simp
  next
    case (Cons x xs) then show ?case by (cases bs) auto
  qed
  then show ?thesis by (simp add: select_rows_def)
qed

lemma status_stage_ref:
  assumes "snd (status_stage sf cc w df) = Inr r" and "df < next_ref w"
  shows "(r = df \<or> next_ref w \<le> r) \<and> r < next_ref (fst (status_stage sf cc w df))"
  using assms
  by (auto simp: status_stage_def Let_def select_frame_def new_frame_def split: sum.splits if_splits)

lemma search_stage_ref:
  assumes "snd (search_stage re term w src) = Inr r"
  shows "next_ref w \<le> r \<and> r < next_ref (fst (search_stage re term w src))"
  using assms
  by (auto simp: search_stage_def Let_def select_frame_def new_frame_def split: sum.splits)

lemma page_stage_ref:
  assumes "snd (page_stage re pg bc cc w df odf) = Inr (Some r)" and "df < next_ref w"
  shows "(r = df \<or> next_ref w \<le> r) \<and> r < next_ref (fst (page_stage re pg bc cc w df odf))"
proof (cases pg)
  case (Data_View search_term)
  with assms search_stage_ref[of re search_term w df r] show ?thesis
    by (auto simp: page_stage_def Let_def split: if_splits sum.splits)
next
  case Analytics
  with assms show ?thesis by (simp add: page_stage_def)
next
  case (Search search_term pressed)
  with assms search_stage_ref[of re search_term w odf r] show ?thesis
    by (auto simp: page_stage_def Let_def split: if_splits sum.splits)
next
  case (Combine base1 base2 pressed)
  with assms show ?thesis
    by (auto simp: page_stage_def Let_def new_frame_def split: if_splits sum.splits option.splits)
next
  case (Bases selected_bases apply_pressed reset_pressed)
  with assms show ?thesis
    by (auto simp: page_stage_def Let_def split: if_splits sum.splits option.splits)
qed

lemma main_flow_shows_new:
  assumes "snd (main_flow re sf pg w) = Inr (Some r)"
  shows "next_ref w \<le> r \<and> r < next_ref (fst (main_flow re sf pg w))"
proof -
  from assms obtain sdf sorig where s: "session_df w = Some sdf" "session_original_df w = Some sorig"
    by (auto simp: main_flow_def split: option.splits)
  let ?c1 = "copy_frame w sdf"
  let ?c2 = "copy_frame (fst ?c1) sorig"
  let ?found = "find_columns (columns (objs (fst ?c2) (snd ?c1)))"
  let ?st = "status_stage sf (snd ?found) (fst ?c2) (snd ?c1)"
  have c1: "snd ?c1 = next_ref w" "next_ref (fst ?c2) = Suc (Suc (next_ref w))"
    by (simp_all add: copy_frame_def new_frame_def)
  from assms s obtain df where df: "snd ?st = Inr df"
    and pg: "snd (page_stage re pg (fst ?found) (snd ?found) (fst ?st) df (snd ?c2)) = Inr (Some r)"
    and w': "fst (main_flow re sf pg w) = fst (page_stage re pg (fst ?found) (snd ?found) (fst ?st) df (snd ?c2))"
    by (auto simp: main_flow_def Let_def split: sum.splits)
  have lt: "snd ?c1 < next_ref (fst ?c2)" using c1 by simp
  from status_stage_ref[OF df lt] c1
  have d: "next_ref w \<le> df" "df < next_ref (fst ?st)" by auto
  have mono: "next_ref (fst ?c2) \<le> next_ref (fst ?st)"
    using frame_preserved_status_stage[of "fst ?c2" sf "snd ?found" "snd ?c1"]
    by (simp add: frame_preserved_def)
  from page_stage_ref[OF pg d(2)] d c1 mono show ?thesis unfolding w' by auto
qed

lemma row_subset_refl: "row_subset d d"
  by (simp add: row_subset_def)

lemma row_subset_trans: "row_subset a b \<Longrightarrow> row_subset b c \<Longrightarrow> row_subset a c"
  by (auto simp: row_subset_def intro: subseq_order.order_trans)

lemma row_subset_select_rows: "row_subset (select_rows d m) d"
  by (simp add: row_subset_def columns_select_rows select_rows_subseq)

lemma select_frame_obj:
  "objs (fst (select_frame w r m)) (snd (select_frame w r m)) = select_rows (objs w r) m"
  by (simp add: select_frame_def new_frame_def)

lemma copy_frame_obj: "objs (fst (copy_frame w r)) (snd (copy_frame w r)) = objs w r"
  by (simp add: copy_frame_def new_frame_def)

lemma status_stage_subset:
  assumes "snd (status_stage sf cc w df) = Inr r"
  shows "row_subset (objs (fst (status_stage sf cc w df)) r) (objs w df)"
  using assms
  by (auto simp: status_stage_def Let_def select_frame_obj row_subset_select_rows row_subset_refl
      split: sum.splits if_splits)

lemma search_stage_subset:
  assumes "snd (search_stage re term w src) = Inr r"
  shows "row_subset (objs (fst (search_stage re term w src)) r) (objs w src)"
  using assms
  by (auto simp: search_stage_def Let_def select_frame_obj row_subset_select_rows
      split: sum.splits)

lemma combine_subset: "combine re d bc b1 b2 = Inr (Some combined) \<Longrightarrow> row_subset combined d"
  by (auto simp: combine_def row_subset_select_rows split: option.splits if_splits sum.splits)

lemma page_stage_subset:
  assumes "snd (page_stage re pg bc cc w df odf) = Inr (Some r)"
  shows "row_subset (objs (fst (page_stage re pg bc cc w df odf)) r) (objs w df)
       \<or> row_subset (objs (fst (page_stage re pg bc cc w df odf)) r) (objs w odf)"
proof (cases pg)
  case (Data_View search_term)
  with assms search_stage_subset[of re search_term w df r] show ?thesis
    by (auto simp: page_stage_def Let_def row_subset_refl split: if_splits sum.splits)
next
  case Analytics
  with assms show ?thesis by (simp add: page_stage_def)
next
  case (Search search_term pressed)
  with assms search_stage_subset[of re search_term w odf r] show ?thesis
    by (auto simp: page_stage_def Let_def split: if_splits sum.splits)
next
  case (Combine base1 base2 pressed)
  with assms show ?thesis
    by (auto simp: page_stage_def Let_def new_frame_def dest: combine_subset
        split: if_splits sum.splits option.splits)
next
  case (Bases selected_bases apply_pressed reset_pressed)
  with assms show ?thesis
    by (auto simp: page_stage_def Let_def split: if_splits sum.splits option.splits)
qed

lemma main_flow_shows_subset:
  assumes "snd (main_flow re sf pg w) = Inr (Some r)"
    and "session_df w = Some sdf" and "session_original_df w = Some sorig"
    and "sdf < next_ref w" and "sorig < next_ref w"
  shows "row_subset (objs (fst (main_flow re sf pg w)) r) (objs w sdf)
       \<or> row_subset (objs (fst (main_flow re sf pg w)) r) (objs w sorig)"
proof -
  let ?c1 = "copy_frame w sdf"
  let ?c2 = "copy_frame (fst ?c1) sorig"
  let ?found = "find_columns (columns (objs (fst ?c2) (snd ?c1)))"
  let ?st = "status_stage sf (snd ?found) (fst ?c2) (snd ?c1)"
  from assms(1-3) obtain df where df: "snd ?st = Inr df"
    and pg: "snd (page_stage re pg (fst ?found) (snd ?found) (fst ?st) df (snd ?c2)) = Inr (Some r)"
    and w': "fst (main_flow re sf pg w) = fst (page_stage re pg (fst ?found) (snd ?found) (fst ?st) df (snd ?c2))"
    by (auto simp: main_flow_def Let_def split: sum.splits)
  have o1: "objs (fst ?c2) (snd ?c1) = objs w sdf"
    by (simp add: copy_frame_def new_frame_def)
  have o2: "objs (fst ?c2) (snd ?c2) = objs w sorig"
    using assms(5) by (simp add: copy_frame_def new_frame_def)
  have lt: "snd ?c2 < next_ref (fst ?c2)" by (simp add: copy_frame_def new_frame_def)
  have o3: "objs (fst ?st) (snd ?c2) = objs w sorig"
    using frame_preserved_status_stage[of "fst ?c2" sf "snd ?found" "snd ?c1"] lt o2
    by (simp add: frame_preserved_def)
  from status_stage_subset[OF df] o1 have s1: "row_subset (objs (fst ?st) df) (objs w sdf)" by simp
  from page_stage_subset[OF pg] show ?thesis
    unfolding w' o3 using s1 row_subset_trans by blast
qed

lemma page_stage_session_df:
  "session_df (fst (page_stage re pg bc cc w df odf)) = session_df w
   \<or> (\<exists>r. session_df (fst (page_stage re pg bc cc w df odf)) = Some r \<and> next_ref w \<le> r
        \<and> (row_subset (objs (fst (page_stage re pg bc cc w df odf)) r) (objs w odf)
            \<or> (\<exists>orig. session_original_df w = Some orig \<and>
                  objs (fst (page_stage re pg bc cc w df odf)) r = objs w orig)))"
proof (cases pg)
  case (Data_View search_term)
  then show ?thesis
    by (auto simp: page_stage_def Let_def search_stage_def select_frame_def new_frame_def
        split: sum.splits)
next
  case Analytics
  then show ?thesis by (simp add: page_stage_def)
next
  case (Search search_term pressed)
  then show ?thesis
    by (auto simp: page_stage_def Let_def search_stage_def select_frame_def new_frame_def
        split: sum.splits)
next
  case (Combine base1 base2 pressed)
  then show ?thesis
    by (auto simp: page_stage_def Let_def new_frame_def split: sum.splits option.splits)
next
  case (Bases selected_bases apply_pressed reset_pressed)
  then show ?thesis
    by (auto simp: page_stage_def Let_def copy_frame_def select_frame_def new_frame_def
        row_subset_select_rows split: sum.splits option.splits)
qed

lemma session_df_new_frame: "session_df (fst (new_frame w d)) = session_df w"
  by (simp add: new_frame_def)

lemma session_df_status_stage: "session_df (fst (status_stage sf cc w df)) = session_df w"
  by (auto simp: status_stage_def Let_def select_frame_def session_df_new_frame split: sum.splits)

lemma main_flow_session_df:
  assumes "session_original_df w = Some sorig" and "sorig < next_ref w"
  shows "session_df (fst (main_flow re sf pg w)) = session_df w
       \<or> (\<exists>r. session_df (fst (main_flow re sf pg w)) = Some r \<and> next_ref w \<le> r
            \<and> row_subset (objs (fst (main_flow re sf pg w)) r) (objs w sorig))"
proof (cases "session_df w")
  case None
  then show ?thesis by (simp add: main_flow_def)
next
  case (Some sdf)
  let ?c1 = "copy_frame w sdf"
  let ?c2 = "copy_frame (fst ?c1) sorig"
  let ?found = "find_columns (columns (objs (fst ?c2) (snd ?c1)))"
  let ?st = "status_stage sf (snd ?found) (fst ?c2) (snd ?c1)"
  have fp: "frame_preserved w (fst ?st)"
    by (rule frame_preserved_trans[OF frame_preserved_trans[OF frame_preserved_copy_frame
            frame_preserved_copy_frame] frame_preserved_status_stage])
  have sd: "session_df (fst ?st) = session_df w"
    by (simp add: session_df_status_stage copy_frame_def session_df_new_frame)
  show ?thesis
  proof (cases "snd ?st")
    case (Inl e)
    with Some assms(1) sd show ?thesis by (simp add: main_flow_def Let_def)
  next
    case (Inr df)
    let ?pg = "page_stage re pg (fst ?found) (snd ?found) (fst ?st) df (snd ?c2)"
    from Some assms(1) Inr have w': "fst (main_flow re sf pg w) = fst ?pg"
      by (simp add: main_flow_def Let_def)
    have o2: "objs (fst ?c2) (snd ?c2) = objs w sorig"
      using assms(2) by (simp add: copy_frame_def new_frame_def)
    have lt: "snd ?c2 < next_ref (fst ?c2)" by (simp add: copy_frame_def new_frame_def)
    have o3: "objs (fst ?st) (snd ?c2) = objs w sorig"
      using frame_preserved_status_stage[of "fst ?c2" sf "snd ?found" "snd ?c1"] lt o2
      by (simp add: frame_preserved_def)
    have so: "session_original_df (fst ?st) = Some sorig" "objs (fst ?st) sorig = objs w sorig"
      "next_ref w \<le> next_ref (fst ?st)"
      using fp assms by (simp_all add: frame_preserved_def)
    from page_stage_session_df[of re pg "fst ?found" "snd ?found" "fst ?st" df "snd ?c2"]
    show ?thesis
      unfolding w' o3 sd using so by (auto simp: row_subset_refl)
  qed
qed

text \<open>
  Claim C8. After any sequence of runs of the main flow, with any status filter, search term,
  combine fragments and base selection in each, the session refers to the same canonical
  frame, every frame that existed before (the canonical one among them) has the columns, rows
  and cells it had, and the mapping is the one it was. A frame that a run shows is an object
  created in that run, with the columns and a subsequence of the rows of the working or of the
  canonical frame; a working frame that a run assigns to the session is such a new object on
  the canonical frame. A row selection has the columns of its input, and its rows are a
  subsequence of the input's rows.
\<close>

theorem filters_leave_canonical_data:
  "session_original_df (run_flows re acts w) = session_original_df w
   \<and> session_base_name_mapping (run_flows re acts w) = session_base_name_mapping w
   \<and> (\<forall>r. r < next_ref w \<longrightarrow> objs (run_flows re acts w) r = objs w r)
   \<and> (\<forall>orig. session_original_df w = Some orig \<and> orig < next_ref w \<longrightarrow>
         session_original_df (run_flows re acts w) = Some orig \<and>
         objs (run_flows re acts w) orig = objs w orig)
   \<and> (\<forall>shown. snd (main_flow re status_filter pg w) = Inr (Some shown) \<longrightarrow>
         next_ref w \<le> shown \<and> shown < next_ref (fst (main_flow re status_filter pg w)))
   \<and> (\<forall>shown sdf sorig. snd (main_flow re status_filter pg w) = Inr (Some shown) \<and>
         session_df w = Some sdf \<and> session_original_df w = Some sorig \<and>
         sdf < next_ref w \<and> sorig < next_ref w \<longrightarrow>
         row_subset (objs (fst (main_flow re status_filter pg w)) shown) (objs w sdf) \<or>
         row_subset (objs (fst (main_flow re status_filter pg w)) shown) (objs w sorig))
   \<and> (\<forall>sorig. session_original_df w = Some sorig \<and> sorig < next_ref w \<longrightarrow>
         session_df (fst (main_flow re status_filter pg w)) = session_df w \<or>
         (\<exists>r. session_df (fst (main_flow re status_filter pg w)) = Some r \<and> next_ref w \<le> r \<and>
              row_subset (objs (fst (main_flow re status_filter pg w)) r) (objs w sorig)))
   \<and> columns (select_rows d m) = columns d \<and> subseq (rows (select_rows d m)) (rows d)"
proof -
  note fp = frame_preserved_run_flows[of w re acts, unfolded frame_preserved_def]
  have 1: "session_original_df (run_flows re acts w) = session_original_df w" using fp by simp
  have 2: "session_base_name_mapping (run_flows re acts w) = session_base_name_mapping w"
    using fp by simp
  have 3: "\<forall>r. r < next_ref w \<longrightarrow> objs (run_flows re acts w) r = objs w r" using fp by simp
  have 4: "\<forall>orig. session_original_df w = Some orig \<and> orig < next_ref w \<longrightarrow>
         session_original_df (run_flows re acts w) = Some orig \<and>
         objs (run_flows re acts w) orig = objs w orig"
    using 1 3 by simp
  have 5: "\<forall>shown. snd (main_flow re status_filter pg w) = Inr (Some shown) \<longrightarrow>
         next_ref w \<le> shown \<and> shown < next_ref (fst (main_flow re status_filter pg w))"
    using main_flow_shows_new by blast
  have 6: "\<forall>shown sdf sorig. snd (main_flow re status_filter pg w) = Inr (Some shown) \<and>
         session_df w = Some sdf \<and> session_original_df w = Some sorig \<and>
         sdf < next_ref w \<and> sorig < next_ref w \<longrightarrow>
         row_subset (objs (fst (main_flow re status_filter pg w)) shown) (objs w sdf) \<or>
         row_subset (objs (fst (main_flow re status_filter pg w)) shown) (objs w sorig)"
    using main_flow_shows_subset by blast
  have 7: "\<forall>sorig. session_original_df w = Some sorig \<and> sorig < next_ref w \<longrightarrow>
         session_df (fst (main_flow re status_filter pg w)) = session_df w \<or>
         (\<exists>r. session_df (fst (main_flow re status_filter pg w)) = Some r \<and> next_ref w \<le> r \<and>
              row_subset (objs (fst (main_flow re status_filter pg w)) r) (objs w sorig))"
    using main_flow_session_df by blast
  have 8: "columns (select_rows d m) = columns d" by (rule columns_select_rows)
  show ?thesis using 1 2 3 4 5 6 7 8 select_rows_subseq[of d m] by (intro conjI) assumption+
qed

theorem filters_leave_canonical_data_witness:
  "session_original_df example_world = Some 1 \<and> 1 < next_ref example_world
   \<and> session_original_df
        (run_flows (\<lambda>p. None)
           [(Approved, Bases [''LY''] True False), (Show_All, Combine ''ly '' ''ZZ'' True)] example_world) = Some 1
   \<and> objs (run_flows (\<lambda>p. None)
           [(Approved, Bases [''LY''] True False), (Show_All, Combine ''ly '' ''ZZ'' True)] example_world) 1
       = example_frame
   \<and> session_df (run_flows (\<lambda>p. None) [(Approved, Bases [''LY''] True False)] example_world) = Some 6
   \<and> objs (run_flows (\<lambda>p. None) [(Approved, Bases [''LY''] True False)] example_world) 6
       = \<lparr>columns = [''Base'', ''Checker''],
          rows = [[CStr ''123-US-LY'', CStr ''Approved''], [CStr ''456-US-LY'', CStr ''Not Approved'']]\<rparr>
   \<and> snd (main_flow (\<lambda>p. None) Approved (Data_View ''ly'') example_world) = Inr (Some 5)
   \<and> next_ref example_world \<le> 5
   \<and> 5 < next_ref (fst (main_flow (\<lambda>p. None) Approved (Data_View ''ly'') example_world))
   \<and> session_df example_world = Some 0 \<and> 0 < next_ref example_world
   \<and> row_subset (objs (fst (main_flow (\<lambda>p. None) Approved (Data_View ''ly'') example_world)) 5)
         example_frame"
proof -
  let ?acts = "[(Approved, Bases [''LY''] True False), (Show_All, Combine ''ly '' ''ZZ'' True)]"
  note t = filters_leave_canonical_data[of "\<lambda>p. None" ?acts example_world Approved "Data_View ''ly''"
      example_frame "[]"]
  have o: "session_original_df example_world = Some 1" by (simp add: example_world_def)
  have n: "1 < next_ref example_world" by (simp add: example_world_def)
  have e: "objs example_world 1 = example_frame" by (simp add: example_world_def)
  from t have t4: "\<forall>orig. session_original_df example_world = Some orig \<and> orig < next_ref example_world \<longrightarrow>
         session_original_df (run_flows (\<lambda>p. None) ?acts example_world) = Some orig \<and>
         objs (run_flows (\<lambda>p. None) ?acts example_world) orig = objs example_world orig"
    by (elim conjE) assumption
  from t have t5: "\<forall>shown. snd (main_flow (\<lambda>p. None) Approved (Data_View ''ly'') example_world) = Inr (Some shown) \<longrightarrow>
         next_ref example_world \<le> shown \<and>
         shown < next_ref (fst (main_flow (\<lambda>p. None) Approved (Data_View ''ly'') example_world))"
    by (elim conjE) assumption
  from t4 o n have a: "session_original_df (run_flows (\<lambda>p. None) ?acts example_world) = Some 1"
    and b0: "objs (run_flows (\<lambda>p. None) ?acts example_world) 1 = objs example_world 1"
    by blast+
  from b0 e have b: "objs (run_flows (\<lambda>p. None) ?acts example_world) 1 = example_frame" by simp
  have c: "session_df (run_flows (\<lambda>p. None) [(Approved, Bases [''LY''] True False)] example_world) = Some 6"
    by code_simp
  have d: "objs (run_flows (\<lambda>p. None) [(Approved, Bases [''LY''] True False)] example_world) 6
       = \<lparr>columns = [''Base'', ''Checker''],
          rows = [[CStr ''123-US-LY'', CStr ''Approved''], [CStr ''456-US-LY'', CStr ''Not Approved'']]\<rparr>"
    by code_simp
  have s: "snd (main_flow (\<lambda>p. None) Approved (Data_View ''ly'') example_world) = Inr (Some 5)"
    by code_simp
  from t5 s have f: "next_ref example_world \<le> 5"
    and g: "5 < next_ref (fst (main_flow (\<lambda>p. None) Approved (Data_View ''ly'') example_world))"
    by blast+
  have p: "session_df example_world = Some 0" by (simp add: example_world_def)
  have q: "0 < next_ref example_world" by (simp add: example_world_def)
  have e0: "objs example_world 0 = example_frame" by (simp add: example_world_def)
  from t have t6: "\<forall>shown sdf sorig.
         snd (main_flow (\<lambda>p. None) Approved (Data_View ''ly'') example_world) = Inr (Some shown) \<and>
         session_df example_world = Some sdf \<and> session_original_df example_world = Some sorig \<and>
         sdf < next_ref example_world \<and> sorig < next_ref example_world \<longrightarrow>
         row_subset (objs (fst (main_flow (\<lambda>p. None) Approved (Data_View ''ly'') example_world)) shown)
           (objs example_world sdf) \<or>
         row_subset (objs (fst (main_flow (\<lambda>p. None) Approved (Data_View ''ly'') example_world)) shown)
           (objs example_world sorig)"
    by (elim conjE) assumption
  from t6 s p o q n
  have "row_subset (objs (fst (main_flow (\<lambda>p. None) Approved (Data_View ''ly'') example_world)) 5)
           (objs example_world 0) \<or>
        row_subset (objs (fst (main_flow (\<lambda>p. None) Approved (Data_View ''ly'') example_world)) 5)
           (objs example_world 1)"
    by blast
  then have h: "row_subset (objs (fst (main_flow (\<lambda>p. None) Approved (Data_View ''ly'') example_world)) 5)
         example_frame"
    unfolding e e0 by simp
  show ?thesis using o n a b c d s f g p q h by (intro conjI) assumption+
qed

end
